theory Spec2Isabelle
  imports Main
begin

section \<open>JavaScript values as the snippets use them\<close>

text \<open>
  The snippets pass strings, numbers, \<open>null\<close>, \<open>undefined\<close>, objects and functions through
  React state, props and context. Objects and arrays are references into a heap, functions
  are references too. \<open>Num\<close> carries an integer: the numbers in the snippets are counters
  that start at 0 and are incremented by one, and ids; fractions, NaN, infinities and the
  negative zero do not occur.
\<close>

datatype jsval =
    Undefined
  | Null
  | Bool bool
  | Num int
  | Str string
  | Ref nat
  | Fn nat

text \<open>The \<open>typeof\<close> operator.\<close>

fun typeof :: "jsval \<Rightarrow> string" where
  "typeof Undefined = ''undefined''"
| "typeof Null = ''object''"
| "typeof (Bool b) = ''boolean''"
| "typeof (Num n) = ''number''"
| "typeof (Str s) = ''string''"
| "typeof (Ref a) = ''object''"
| "typeof (Fn a) = ''function''"

text \<open>
  Strict equality \<open>===\<close>: values of different types are different, primitives are compared
  by value, objects, arrays and functions by reference.
\<close>

fun strict_eq :: "jsval \<Rightarrow> jsval \<Rightarrow> bool" where
  "strict_eq Undefined Undefined = True"
| "strict_eq Null Null = True"
| "strict_eq (Bool a) (Bool b) = (a = b)"
| "strict_eq (Num a) (Num b) = (a = b)"
| "strict_eq (Str a) (Str b) = (a = b)"
| "strict_eq (Ref a) (Ref b) = (a = b)"
| "strict_eq (Fn a) (Fn b) = (a = b)"
| "strict_eq _ _ = False"

text \<open>
  A JavaScript number is a double, and \<open>js_plus_one n\<close> is the value of \<open>n + 1\<close> for a
  count \<open>n\<close> that is one. Below \<open>2 ^ 53\<close> every integer is a double and the sum is exact.
  From \<open>2 ^ 53\<close> to \<open>2 ^ 54\<close> the doubles are the even integers: \<open>n + 1\<close> lies halfway
  between \<open>n\<close> and \<open>n + 2\<close> and rounds to the one whose significand (\<open>n div 2\<close>, or that
  plus one) is even. From \<open>2 ^ 54\<close> on the doubles are at least 4 apart and the sum rounds
  back to \<open>n\<close>.
\<close>

definition MAX_COUNT :: nat where
  "MAX_COUNT = 9007199254740992"

definition js_plus_one :: "nat \<Rightarrow> nat" where
  "js_plus_one n =
     (if n < MAX_COUNT then n + 1
      else if n < 2 * MAX_COUNT \<and> odd (n div 2) then n + 2
      else n)"

text \<open>
  The dependency array of \<open>useEffect\<close>: after the first render the effect runs again
  exactly when some dependency changed between two renders (the write-up in the repository:
  "Runs after the initial render, and whenever any of dep1 or dep2 change"). An empty array
  never changes.
\<close>

fun deps_same :: "jsval list \<Rightarrow> jsval list \<Rightarrow> bool" where
  "deps_same [] [] = True"
| "deps_same (a # as) (b # bs) = (strict_eq a b \<and> deps_same as bs)"
| "deps_same _ _ = False"

definition deps_changed :: "jsval list \<Rightarrow> jsval list \<Rightarrow> bool" where
  "deps_changed prev next = (\<not> deps_same prev next)"

section \<open>ThemeContext.jsx: the theme context and its provider\<close>

text \<open>
  A field of the context value is a plain value or the provider's \<open>toggleTheme\<close> closure.
  A context value is an object: its fields in order.
\<close>

datatype ctx_field = Plain jsval | ToggleTheme

type_synonym context_value = "(string \<times> ctx_field) list"

text \<open>Reading a property of an object: a missing property is \<open>undefined\<close>.\<close>

definition get_field :: "context_value \<Rightarrow> string \<Rightarrow> ctx_field" where
  "get_field obj k = (case map_of obj k of None \<Rightarrow> Plain Undefined | Some f \<Rightarrow> f)"

text \<open>\<open>createContext({ theme: "light" })\<close>: the default value, used when no provider encloses
  the consumer.\<close>

definition ThemeContext_default :: context_value where
  "ThemeContext_default = [(''theme'', Plain (Str ''light''))]"

text \<open>\<open>const [theme, setTheme] = useState("light")\<close>.\<close>

record ThemeProvider_state =
  theme :: jsval

definition ThemeProvider_init :: ThemeProvider_state where
  "ThemeProvider_init = \<lparr>theme = Str ''light''\<rparr>"

text \<open>\<open>setTheme\<close> called with an updater function: the new state is the updater applied
  to the previous one.\<close>

definition setTheme :: "(jsval \<Rightarrow> jsval) \<Rightarrow> ThemeProvider_state \<Rightarrow> ThemeProvider_state" where
  "setTheme updater st = st\<lparr>theme := updater (theme st)\<rparr>"

text \<open>\<open>setTheme((prevTheme) => (prevTheme === "light" ? "dark" : "light"))\<close>.\<close>

definition toggleTheme :: "ThemeProvider_state \<Rightarrow> ThemeProvider_state" where
  "toggleTheme st =
     setTheme (\<lambda>prevTheme. if strict_eq prevTheme (Str ''light'') then Str ''dark'' else Str ''light'') st"

text \<open>\<open>value={{ theme, toggleTheme }}\<close>: what the provider hands to its descendants.\<close>

definition ThemeProvider_value :: "ThemeProvider_state \<Rightarrow> context_value" where
  "ThemeProvider_value st = [(''theme'', Plain (theme st)), (''toggleTheme'', ToggleTheme)]"

text \<open>\<open>useContext(ThemeContext)\<close>: the value of the nearest enclosing provider, the default
  value when there is none.\<close>

definition useContext :: "ThemeProvider_state option \<Rightarrow> context_value" where
  "useContext provider =
     (case provider of None \<Rightarrow> ThemeContext_default | Some st \<Rightarrow> ThemeProvider_value st)"

text \<open>ThemeButton.jsx: \<open>const { toggleTheme } = useContext(ThemeContext)\<close>, handed to the
  button as its \<open>onClick\<close>.\<close>

definition ThemeButton_onClick :: "ThemeProvider_state option \<Rightarrow> ctx_field" where
  "ThemeButton_onClick provider = get_field (useContext provider) ''toggleTheme''"

text \<open>A click on a button calls its \<open>onClick\<close> when that is a function; with no handler
  nothing runs.\<close>

fun click :: "ctx_field \<Rightarrow> ThemeProvider_state \<Rightarrow> ThemeProvider_state" where
  "click ToggleTheme st = toggleTheme st"
| "click (Plain v) st = st"

text \<open>The provider's state after \<open>n\<close> clicks on the ThemeButton rendered inside it (App.jsx).\<close>

primrec theme_after :: "nat \<Rightarrow> ThemeProvider_state" where
  "theme_after 0 = ThemeProvider_init"
| "theme_after (Suc n) =
     click (ThemeButton_onClick (Some (theme_after n))) (theme_after n)"

section \<open>useEffect examples: infiniteLoop\<close>

text \<open>
  \<open>const [count, setCount] = useState(0)\<close> with the effect
  \<open>setCount(count + 1); console.log("Effect ran, count:", count)\<close> and the dependency
  array \<open>[count]\<close>. The state records the counter, whether an execution of the effect is
  due after the last render, and the counts written to the console.
\<close>

record infiniteLoop_state =
  il_count :: nat
  il_effect_due :: bool
  il_console :: "nat list"

text \<open>After the first render (count 0) the effect is due.\<close>

definition infiniteLoop_mount :: infiniteLoop_state where
  "infiniteLoop_mount = \<lparr>il_count = 0, il_effect_due = True, il_console = []\<rparr>"

text \<open>
  One execution of the effect, in the render whose count is \<open>il_count\<close>: it writes
  \<open>count + 1\<close> to the state and logs \<open>count\<close>. The next render compares its dependency
  array with this render's: the effect is due again when they differ.
\<close>

definition infiniteLoop_effect :: "infiniteLoop_state \<Rightarrow> infiniteLoop_state" where
  "infiniteLoop_effect st =
     (let count = il_count st; written = js_plus_one count
      in \<lparr>il_count = written,
          il_effect_due = deps_changed [Num (int count)] [Num (int written)],
          il_console = il_console st @ [count]\<rparr>)"

text \<open>The render/effect cycle, for at most \<open>n\<close> executions of the effect: it stops as soon
  as no execution is due.\<close>

fun infiniteLoop_run :: "nat \<Rightarrow> infiniteLoop_state \<Rightarrow> infiniteLoop_state" where
  "infiniteLoop_run 0 st = st"
| "infiniteLoop_run (Suc n) st =
     (if il_effect_due st then infiniteLoop_run n (infiniteLoop_effect st) else st)"

section \<open>useEffect examples: staleClosureComponent\<close>

text \<open>
  The effect has the dependency array \<open>[]\<close>. It registers an interval whose callback logs
  the \<open>count\<close> of the render the effect ran in, and returns a cleanup that clears the
  interval. \<open>sc_interval\<close> is the count captured by the registered callback, \<open>None\<close> when
  no interval is registered.
\<close>

datatype sc_event = Click_Increment | Interval_Tick | Unmount

record staleClosure_state =
  sc_count :: nat
  sc_mounted :: bool
  sc_interval :: "nat option"
  sc_console :: "nat list"

definition staleClosure_effect :: "nat \<Rightarrow> staleClosure_state \<Rightarrow> staleClosure_state" where
  "staleClosure_effect count st = st\<lparr>sc_interval := Some count\<rparr>"

definition staleClosure_cleanup :: "staleClosure_state \<Rightarrow> staleClosure_state" where
  "staleClosure_cleanup st = st\<lparr>sc_interval := None\<rparr>"

text \<open>The first render has \<open>count = 0\<close> (\<open>useState(0)\<close>); the effect runs after it.\<close>

definition staleClosure_mount :: staleClosure_state where
  "staleClosure_mount =
     staleClosure_effect 0 \<lparr>sc_count = 0, sc_mounted = True, sc_interval = None, sc_console = []\<rparr>"

text \<open>A later render: the effect is cleaned up and run again, with the count of this render,
  only if its dependency array changed.\<close>

definition staleClosure_rerender :: "staleClosure_state \<Rightarrow> staleClosure_state" where
  "staleClosure_rerender st =
     (if deps_changed [] [] then staleClosure_effect (sc_count st) (staleClosure_cleanup st)
      else st)"

text \<open>
  The button's handler is \<open>() => setCount(count + 1)\<close>, with the count of the latest render;
  a tick of the interval calls the registered callback, \<open>console.log("Count is", count)\<close>.
\<close>

fun staleClosure_event :: "sc_event \<Rightarrow> staleClosure_state \<Rightarrow> staleClosure_state" where
  "staleClosure_event Click_Increment st =
     (if sc_mounted st then staleClosure_rerender (st\<lparr>sc_count := js_plus_one (sc_count st)\<rparr>)
      else st)"
| "staleClosure_event Interval_Tick st =
     (case sc_interval st of
        None \<Rightarrow> st
      | Some captured \<Rightarrow> st\<lparr>sc_console := sc_console st @ [captured]\<rparr>)"
| "staleClosure_event Unmount st =
     (if sc_mounted st then (staleClosure_cleanup st)\<lparr>sc_mounted := False\<rparr> else st)"

fun staleClosure_run :: "sc_event list \<Rightarrow> staleClosure_state \<Rightarrow> staleClosure_state" where
  "staleClosure_run [] st = st"
| "staleClosure_run (e # es) st = staleClosure_run es (staleClosure_event e st)"

section \<open>useEffect examples: RaceConditionComponent\<close>

datatype request_status = Pending | Aborted | Fulfilled | Rejected

text \<open>A request started by \<open>fetch\<close>: its URL, the abort signal passed in the options (if any)
  and its status.\<close>

record request =
  req_url :: string
  req_signal :: "nat option"
  req_status :: request_status

record js_error =
  err_name :: string
  err_message :: string

text \<open>A console line: the leading text and the further arguments of \<open>console.log\<close>, or the
  leading text and the error handed to \<open>console.error\<close>.\<close>

datatype console_entry =
    Console_log string "jsval list"
  | Console_error string js_error

text \<open>What an effect returns: nothing, or a cleanup that aborts the controller of a signal.\<close>

datatype effect_cleanup = Abort_controller nat

datatype fetch_outcome = Resolves jsval | Rejects js_error

text \<open>The \<open>userId\<close> prop is whatever value the parent passes.\<close>

datatype rc_event = Change_userId jsval | Settle nat fetch_outcome

record RaceCondition_state =
  rc_userId :: jsval
  rc_user :: jsval
  rc_loading :: bool
  rc_requests :: "request list"
  rc_cleanup :: "effect_cleanup option"
  rc_console :: "console_entry list"

text \<open>
  The text a template literal puts in place of \<open>${userId}\<close>: a string stands for itself;
  for any other value it is the language's conversion to a string, which the functions
  below take as the parameter \<open>to_text\<close>.
\<close>

definition template_text :: "(jsval \<Rightarrow> string) \<Rightarrow> jsval \<Rightarrow> string" where
  "template_text to_text v = (case v of Str s \<Rightarrow> s | _ \<Rightarrow> to_text v)"

text \<open>\<open>abortController.abort()\<close>: every pending request that was given the controller's
  signal is aborted.\<close>

definition abort_signal :: "nat \<Rightarrow> request list \<Rightarrow> request list" where
  "abort_signal c rs =
     map (\<lambda>r. if req_signal r = Some c \<and> req_status r = Pending
               then r\<lparr>req_status := Aborted\<rparr> else r) rs"

text \<open>Before an effect runs again, the cleanup returned by its previous execution runs.\<close>

definition run_cleanup :: "RaceCondition_state \<Rightarrow> RaceCondition_state" where
  "run_cleanup st =
     (case rc_cleanup st of
        None \<Rightarrow> st
      | Some (Abort_controller c) \<Rightarrow> st\<lparr>rc_requests := abort_signal c (rc_requests st)\<rparr>)"

text \<open>
  The effect of RaceConditionComponent: \<open>setLoading(true); setUser(null)\<close>, the log line,
  then \<open>fetch(`/api/users/${userId}`)\<close> with no options. The effect function has no
  \<open>return\<close>.
\<close>

definition RaceCondition_effect ::
    "(jsval \<Rightarrow> string) \<Rightarrow> jsval \<Rightarrow> RaceCondition_state \<Rightarrow> RaceCondition_state" where
  "RaceCondition_effect to_text userId st =
     st\<lparr>rc_loading := True,
        rc_user := Null,
        rc_console := rc_console st
           @ [Console_log (''Fetching user '' @ template_text to_text userId @ ''...'') []],
        rc_requests := rc_requests st
           @ [\<lparr>req_url = ''/api/users/'' @ template_text to_text userId,
               req_signal = None, req_status = Pending\<rparr>],
        rc_cleanup := None\<rparr>"

text \<open>\<open>useState(null)\<close>, \<open>useState(true)\<close>, and the effect after the first render.\<close>

definition RaceCondition_mount :: "(jsval \<Rightarrow> string) \<Rightarrow> jsval \<Rightarrow> RaceCondition_state" where
  "RaceCondition_mount to_text userId =
     RaceCondition_effect to_text userId
       \<lparr>rc_userId = userId, rc_user = Null, rc_loading = True, rc_requests = [],
        rc_cleanup = None, rc_console = []\<rparr>"

text \<open>A render with a new \<open>userId\<close> prop; the dependency array is \<open>[userId]\<close>, compared on
  the prop itself.\<close>

definition RaceCondition_rerender ::
    "(jsval \<Rightarrow> string) \<Rightarrow> jsval \<Rightarrow> RaceCondition_state \<Rightarrow> RaceCondition_state" where
  "RaceCondition_rerender to_text userId st =
     (if deps_changed [rc_userId st] [userId]
      then RaceCondition_effect to_text userId (run_cleanup (st\<lparr>rc_userId := userId\<rparr>))
      else st\<lparr>rc_userId := userId\<rparr>)"

text \<open>The second \<open>.then\<close>: \<open>setUser(data); setLoading(false)\<close>.\<close>

definition RaceCondition_then :: "jsval \<Rightarrow> RaceCondition_state \<Rightarrow> RaceCondition_state" where
  "RaceCondition_then data st = st\<lparr>rc_user := data, rc_loading := False\<rparr>"

text \<open>The \<open>.catch\<close>: \<open>console.error("Fetch error:", error); setLoading(false)\<close>.\<close>

definition RaceCondition_catch :: "js_error \<Rightarrow> RaceCondition_state \<Rightarrow> RaceCondition_state" where
  "RaceCondition_catch error st =
     st\<lparr>rc_console := rc_console st @ [Console_error ''Fetch error:'' error],
        rc_loading := False\<rparr>"

text \<open>
  The promise chain of request \<open>i\<close> settles, if it is still pending: with the parsed data
  when \<open>fetch\<close> and \<open>res.json()\<close> both succeed, with an error when either rejects. The
  matching handler runs.
\<close>

definition settle :: "nat \<Rightarrow> fetch_outcome \<Rightarrow> RaceCondition_state \<Rightarrow> RaceCondition_state" where
  "settle i outcome st =
     (if i < length (rc_requests st) \<and> req_status (rc_requests st ! i) = Pending
      then (case outcome of
              Resolves data \<Rightarrow>
                RaceCondition_then data
                  (st\<lparr>rc_requests := (rc_requests st)[i := (rc_requests st ! i)\<lparr>req_status := Fulfilled\<rparr>]\<rparr>)
            | Rejects error \<Rightarrow>
                RaceCondition_catch error
                  (st\<lparr>rc_requests := (rc_requests st)[i := (rc_requests st ! i)\<lparr>req_status := Rejected\<rparr>]\<rparr>))
      else st)"

fun RaceCondition_event ::
    "(jsval \<Rightarrow> string) \<Rightarrow> rc_event \<Rightarrow> RaceCondition_state \<Rightarrow> RaceCondition_state" where
  "RaceCondition_event to_text (Change_userId userId) st = RaceCondition_rerender to_text userId st"
| "RaceCondition_event to_text (Settle i outcome) st = settle i outcome st"

fun RaceCondition_run ::
    "(jsval \<Rightarrow> string) \<Rightarrow> rc_event list \<Rightarrow> RaceCondition_state \<Rightarrow> RaceCondition_state" where
  "RaceCondition_run to_text [] st = st"
| "RaceCondition_run to_text (e # es) st =
     RaceCondition_run to_text es (RaceCondition_event to_text e st)"

text \<open>
  CorrectedRaceConditionComponent, the fix shown in the write-up: the effect creates an
  AbortController (\<open>c\<close> names it), passes its signal to \<open>fetch\<close> and returns a cleanup that
  aborts it.
\<close>

definition CorrectedRaceCondition_effect ::
    "(jsval \<Rightarrow> string) \<Rightarrow> nat \<Rightarrow> jsval \<Rightarrow> RaceCondition_state \<Rightarrow> RaceCondition_state" where
  "CorrectedRaceCondition_effect to_text c userId st =
     st\<lparr>rc_loading := True,
        rc_user := Null,
        rc_console := rc_console st
           @ [Console_log (''Fetching user '' @ template_text to_text userId @ ''...'') []],
        rc_requests := rc_requests st
           @ [\<lparr>req_url = ''/api/users/'' @ template_text to_text userId,
               req_signal = Some c, req_status = Pending\<rparr>],
        rc_cleanup := Some (Abort_controller c)\<rparr>"

definition CorrectedRaceCondition_rerender ::
    "(jsval \<Rightarrow> string) \<Rightarrow> nat \<Rightarrow> jsval \<Rightarrow> RaceCondition_state \<Rightarrow> RaceCondition_state" where
  "CorrectedRaceCondition_rerender to_text c userId st =
     (if deps_changed [rc_userId st] [userId]
      then CorrectedRaceCondition_effect to_text c userId (run_cleanup (st\<lparr>rc_userId := userId\<rparr>))
      else st\<lparr>rc_userId := userId\<rparr>)"

text \<open>
  Its \<open>catch\<close> and \<open>finally\<close> blocks, in the effect run for \<open>userId\<close>:
  \<open>if (error.name === "AbortError") console.log("Fetch aborted for user:", userId)
   else console.error("Fetch error:", error)\<close>, then \<open>setLoading(false)\<close>.
\<close>

definition CorrectedRaceCondition_catch ::
    "jsval \<Rightarrow> js_error \<Rightarrow> RaceCondition_state \<Rightarrow> RaceCondition_state" where
  "CorrectedRaceCondition_catch userId error st =
     (let st' = (if err_name error = ''AbortError''
                 then st\<lparr>rc_console := rc_console st @ [Console_log ''Fetch aborted for user:'' [userId]]\<rparr>
                 else st\<lparr>rc_console := rc_console st @ [Console_error ''Fetch error:'' error]\<rparr>)
      in st'\<lparr>rc_loading := False\<rparr>)"

text \<open>Which console method a line went to, and with which leading text: what tells the
  branches of a handler apart, whatever error they were given.\<close>

datatype console_method = Method_log | Method_error

fun entry_kind :: "console_entry \<Rightarrow> console_method \<times> string" where
  "entry_kind (Console_log text args) = (Method_log, text)"
| "entry_kind (Console_error label error) = (Method_error, label)"

section \<open>Controlled and uncontrolled form components\<close>

text \<open>
  What the user does with either form: type into the input, leaving the given text in the
  field, or submit. Every alert shown is recorded.
\<close>

datatype form_event = Type_text string | Submit

text \<open>ControlledComponent.jsx: \<open>const [value, setValue] = useState("")\<close>; the input shows
  \<open>value\<close> and reports every edit through \<open>onChange\<close>.\<close>

record Controlled_state =
  cc_value :: string
  cc_alerts :: "string list"

definition ControlledComponent_init :: Controlled_state where
  "ControlledComponent_init = \<lparr>cc_value = [], cc_alerts = []\<rparr>"

text \<open>\<open>handleChange\<close>: \<open>setValue(e.target.value)\<close>.\<close>

definition cc_handleChange :: "string \<Rightarrow> Controlled_state \<Rightarrow> Controlled_state" where
  "cc_handleChange target_value st = st\<lparr>cc_value := target_value\<rparr>"

text \<open>\<open>handleSubmit\<close>: \<open>e.preventDefault(); alert("A name was submitted" + value)\<close>.\<close>

definition cc_handleSubmit :: "Controlled_state \<Rightarrow> Controlled_state" where
  "cc_handleSubmit st = st\<lparr>cc_alerts := cc_alerts st @ [''A name was submitted'' @ cc_value st]\<rparr>"

fun ControlledComponent_event :: "form_event \<Rightarrow> Controlled_state \<Rightarrow> Controlled_state" where
  "ControlledComponent_event (Type_text t) st = cc_handleChange t st"
| "ControlledComponent_event Submit st = cc_handleSubmit st"

fun ControlledComponent_run :: "form_event list \<Rightarrow> Controlled_state \<Rightarrow> Controlled_state" where
  "ControlledComponent_run [] st = st"
| "ControlledComponent_run (e # es) st = ControlledComponent_run es (ControlledComponent_event e st)"

text \<open>
  UncontrolledComponent.jsx: \<open>const inputRef = useRef(null)\<close>. The input element keeps its
  own text (empty at first); \<open>inputRef.current\<close> is \<open>null\<close> until the element is mounted
  and the element afterwards.
\<close>

record Uncontrolled_state =
  uc_input_value :: string
  uc_ref_attached :: bool
  uc_alerts :: "string list"

datatype js_exception = TypeError

definition UncontrolledComponent_init :: Uncontrolled_state where
  "UncontrolledComponent_init = \<lparr>uc_input_value = [], uc_ref_attached = False, uc_alerts = []\<rparr>"

definition UncontrolledComponent_mount :: Uncontrolled_state where
  "UncontrolledComponent_mount = UncontrolledComponent_init\<lparr>uc_ref_attached := True\<rparr>"

text \<open>\<open>handleSubmit\<close>: \<open>alert("A name was submitted" + inputRef.current.value)\<close>; reading
  \<open>.value\<close> of \<open>null\<close> throws.\<close>

definition uc_handleSubmit :: "Uncontrolled_state \<Rightarrow> js_exception + Uncontrolled_state" where
  "uc_handleSubmit st =
     (if uc_ref_attached st
      then Inr (st\<lparr>uc_alerts := uc_alerts st @ [''A name was submitted'' @ uc_input_value st]\<rparr>)
      else Inl TypeError)"

fun UncontrolledComponent_event ::
    "form_event \<Rightarrow> Uncontrolled_state \<Rightarrow> js_exception + Uncontrolled_state" where
  "UncontrolledComponent_event (Type_text t) st = Inr (st\<lparr>uc_input_value := t\<rparr>)"
| "UncontrolledComponent_event Submit st = uc_handleSubmit st"

fun UncontrolledComponent_run ::
    "form_event list \<Rightarrow> Uncontrolled_state \<Rightarrow> js_exception + Uncontrolled_state" where
  "UncontrolledComponent_run [] st = Inr st"
| "UncontrolledComponent_run (e # es) st =
     (case UncontrolledComponent_event e st of
        Inl err \<Rightarrow> Inl err
      | Inr st' \<Rightarrow> UncontrolledComponent_run es st')"

section \<open>memo: Parent and MemoizedChild\<close>

text \<open>The props of an element: its fields in order. The objects and arrays that \<open>Ref\<close>
  values point to live in a heap.\<close>

type_synonym props = "(string \<times> jsval) list"

type_synonym heap = "nat \<Rightarrow> props option"

text \<open>
  Modelled from the spec: the comparison made by React's \<open>memo\<close>, which is the host
  framework's and not part of the repository. The glossary has "equality check performed
  field-by-field by reference/value, not recursively"; the repository's README has
  primitives "compared by value" (\<open>5 === 5\<close>) and objects and arrays "compared by
  reference" (\<open>{} === {}\<close> is false). Two props objects are equal when they have the same
  number of fields and every field of the first is a field of the second with a strictly
  equal value.
\<close>

definition shallow_equal :: "props \<Rightarrow> props \<Rightarrow> bool" where
  "shallow_equal prev next =
     (length prev = length next \<and>
      list_all (\<lambda>(k, v). case map_of next k of None \<Rightarrow> False | Some w \<Rightarrow> strict_eq v w) prev)"

text \<open>The primitive values, as the README lists them: strings, numbers, booleans, null,
  undefined.\<close>

fun is_primitive :: "jsval \<Rightarrow> bool" where
  "is_primitive (Ref a) = False"
| "is_primitive (Fn a) = False"
| "is_primitive _ = True"

text \<open>Parent: \<open>useState(0)\<close> and \<open>useState("Sumit")\<close>.\<close>

record Parent_state =
  p_count :: nat
  p_name :: string

text \<open>The app: Parent's state, the props MemoizedChild was last rendered with (none before
  the first render) and the console.\<close>

record memo_app =
  ma_parent :: Parent_state
  ma_prev_props :: "props option"
  ma_console :: "string list"

text \<open>The body of MemoizedChild: \<open>console.log("MemoizedChild is rendered!")\<close>.\<close>

definition MemoizedChild :: "props \<Rightarrow> string list \<Rightarrow> string list" where
  "MemoizedChild ps console = console @ [''MemoizedChild is rendered!'']"

text \<open>
  Modelled from the spec: \<open>memo(MemoizedChild)\<close>, "a memoized wrapper that skips
  re-computation when shallow-equal input did not change"; \<open>memo\<close> itself is the host
  framework's. The first render always runs the body.
\<close>

definition memo_MemoizedChild :: "props option \<Rightarrow> props \<Rightarrow> string list \<Rightarrow> string list" where
  "memo_MemoizedChild prev ps console =
     (case prev of
        None \<Rightarrow> MemoizedChild ps console
      | Some prev_props \<Rightarrow>
          if shallow_equal prev_props ps then console else MemoizedChild ps console)"

text \<open>\<open><MemoizedChild name={name} />\<close>.\<close>

definition Parent_child_props :: "Parent_state \<Rightarrow> props" where
  "Parent_child_props s = [(''name'', Str (p_name s))]"

text \<open>A render of Parent: its own log line, then its memoized child.\<close>

definition Parent_render :: "memo_app \<Rightarrow> memo_app" where
  "Parent_render app =
     (let ps = Parent_child_props (ma_parent app)
      in app\<lparr>ma_prev_props := Some ps,
             ma_console := memo_MemoizedChild (ma_prev_props app) ps
                             (ma_console app @ [''Parent Rendered!''])\<rparr>)"

definition Parent_mount :: memo_app where
  "Parent_mount =
     Parent_render \<lparr>ma_parent = \<lparr>p_count = 0, p_name = ''Sumit''\<rparr>,
                    ma_prev_props = None, ma_console = []\<rparr>"

text \<open>
  The handlers of the two buttons, \<open>setCount(count + 1)\<close> and \<open>setName("Satyam")\<close>, as
  updates of Parent's state. When React renders Parent after a click is the framework's
  business; \<open>Parent_render\<close> says what a render does.
\<close>

datatype parent_event = Click_count | Click_name

fun Parent_handler :: "parent_event \<Rightarrow> Parent_state \<Rightarrow> Parent_state" where
  "Parent_handler Click_count s = s\<lparr>p_count := js_plus_one (p_count s)\<rparr>"
| "Parent_handler Click_name s = s\<lparr>p_name := ''Satyam''\<rparr>"

section \<open>Properties of the values and of the dependency check\<close>

lemma strict_eq_iff: "strict_eq a b \<longleftrightarrow> a = b"
  by (cases a; cases b) simp_all

lemma deps_changed_single: "deps_changed [a] [b] \<longleftrightarrow> a \<noteq> b"
  by (simp add: deps_changed_def strict_eq_iff)

lemma deps_changed_empty: "\<not> deps_changed [] []"
  by (simp add: deps_changed_def)

section \<open>The theme provider\<close>

lemma toggleTheme_theme:
  "theme (toggleTheme st) = (if theme st = Str ''light'' then Str ''dark'' else Str ''light'')"
  by (simp add: toggleTheme_def setTheme_def strict_eq_iff)

lemma ThemeButton_onClick_provider: "ThemeButton_onClick (Some st) = ToggleTheme"
  by (simp add: ThemeButton_onClick_def useContext_def ThemeProvider_value_def get_field_def)

lemma theme_after_Suc: "theme_after (Suc n) = toggleTheme (theme_after n)"
  by (simp add: ThemeButton_onClick_provider)

lemma theme_after_cases:
  "theme (theme_after n) = Str ''light'' \<or> theme (theme_after n) = Str ''dark''"
proof (induction n)
  case 0
  show ?case by (simp add: ThemeProvider_init_def)
next
  case (Suc n)
  show ?case unfolding theme_after_Suc by (simp add: toggleTheme_theme)
qed

lemma toggleTheme_twice:
  assumes "theme st = Str ''light'' \<or> theme st = Str ''dark''"
  shows "toggleTheme (toggleTheme st) = st"
  using assms by (auto simp: toggleTheme_def setTheme_def)

text \<open>
  Claim C5, as the spec has it: the theme state is a toggled boolean flag, its value of
  boolean type. It fails on the code: the state starts as the string \<open>"light"\<close>, whose
  \<open>typeof\<close> is \<open>"string"\<close>, not \<open>"boolean"\<close>.
\<close>

theorem theme_not_boolean_counterexample:
  "typeof (theme ThemeProvider_init) = ''string''
   \<and> typeof (theme ThemeProvider_init) \<noteq> ''boolean''"
  by (simp add: ThemeProvider_init_def)

text \<open>
  Claim C5, amended: the theme state is a toggled two-valued string flag. After any number
  of clicks its value is of string type and is one of the two strings \<open>"light"\<close> and
  \<open>"dark"\<close>, and each toggle flips it from the one to the other, so it always changes.
\<close>

theorem theme_is_two_valued_string:
  "typeof (theme (theme_after n)) = ''string''
   \<and> (theme (theme_after n) = Str ''light'' \<or> theme (theme_after n) = Str ''dark'')
   \<and> theme (theme_after (Suc n)) =
       (if theme (theme_after n) = Str ''light'' then Str ''dark'' else Str ''light'')
   \<and> theme (theme_after (Suc n)) \<noteq> theme (theme_after n)"
proof -
  have "theme (theme_after n) = Str ''light'' \<or> theme (theme_after n) = Str ''dark''"
    by (rule theme_after_cases)
  then show ?thesis
    unfolding theme_after_Suc by (auto simp: toggleTheme_theme)
qed

text \<open>
  Claim C8: the theme managed by ThemeProvider is always exactly one of the strings
  \<open>"light"\<close> and \<open>"dark"\<close>, initially \<open>"light"\<close>; \<open>toggleTheme\<close> maps \<open>"light"\<close> to
  \<open>"dark"\<close> and \<open>"dark"\<close> to \<open>"light"\<close>, and applied twice from any reachable state it
  restores that state.
\<close>

theorem toggleTheme_involution:
  "theme ThemeProvider_init = Str ''light''
   \<and> (theme (theme_after n) = Str ''light'' \<or> theme (theme_after n) = Str ''dark'')
   \<and> theme (toggleTheme \<lparr>theme = Str ''light''\<rparr>) = Str ''dark''
   \<and> theme (toggleTheme \<lparr>theme = Str ''dark''\<rparr>) = Str ''light''
   \<and> toggleTheme (toggleTheme (theme_after n)) = theme_after n"
  using theme_after_cases [of n] toggleTheme_twice [of "theme_after n"]
  by (simp add: ThemeProvider_init_def toggleTheme_theme)

text \<open>
  Claim C9: the default value of ThemeContext has the single field \<open>theme = "light"\<close> and no
  \<open>toggleTheme\<close>. For a consumer with no enclosing provider, \<open>useContext\<close> gives that
  default, the destructured \<open>toggleTheme\<close> is \<open>undefined\<close>, so ThemeButton's \<open>onClick\<close> is
  \<open>undefined\<close> and a click changes no state.
\<close>

theorem default_context_has_no_toggleTheme:
  "ThemeContext_default = [(''theme'', Plain (Str ''light''))]
   \<and> map_of ThemeContext_default ''toggleTheme'' = None
   \<and> useContext None = ThemeContext_default
   \<and> ThemeButton_onClick None = Plain Undefined
   \<and> click (ThemeButton_onClick None) st = st"
  by (simp add: ThemeContext_default_def useContext_def ThemeButton_onClick_def get_field_def)

section \<open>infiniteLoop: the effect that writes its own dependency\<close>

lemma infiniteLoop_effect_below:
  assumes "il_count st < MAX_COUNT"
  shows "infiniteLoop_effect st =
           \<lparr>il_count = il_count st + 1, il_effect_due = True, il_console = il_console st @ [il_count st]\<rparr>"
  using assms by (simp add: infiniteLoop_effect_def js_plus_one_def deps_changed_single Let_def)

lemma js_plus_one_at_limit: "js_plus_one MAX_COUNT = MAX_COUNT"
  by (simp add: js_plus_one_def MAX_COUNT_def)

lemma infiniteLoop_effect_at_limit:
  assumes "il_count st = MAX_COUNT"
  shows "infiniteLoop_effect st =
           \<lparr>il_count = MAX_COUNT, il_effect_due = False, il_console = il_console st @ [MAX_COUNT]\<rparr>"
  using assms by (simp add: infiniteLoop_effect_def js_plus_one_at_limit deps_changed_single Let_def)

lemma infiniteLoop_run_count:
  assumes "il_effect_due st" and "il_count st + n \<le> MAX_COUNT"
  shows "il_count (infiniteLoop_run n st) = il_count st + n
         \<and> il_effect_due (infiniteLoop_run n st)
         \<and> il_console (infiniteLoop_run n st) = il_console st @ [il_count st ..< il_count st + n]"
  using assms
proof (induction n arbitrary: st)
  case 0
  then show ?case by simp
next
  case (Suc n)
  from Suc.prems have below: "il_count st < MAX_COUNT" by simp
  let ?st' = "infiniteLoop_effect st"
  have eff: "?st' = \<lparr>il_count = il_count st + 1, il_effect_due = True,
                     il_console = il_console st @ [il_count st]\<rparr>"
    by (rule infiniteLoop_effect_below [OF below])
  have due': "il_effect_due ?st'" and cnt': "il_count ?st' = il_count st + 1"
    and con': "il_console ?st' = il_console st @ [il_count st]"
    by (simp_all add: eff)
  from Suc.prems cnt' have bound': "il_count ?st' + n \<le> MAX_COUNT" by simp
  note ih = Suc.IH [OF due' bound']
  have run: "infiniteLoop_run (Suc n) st = infiniteLoop_run n ?st'"
    using Suc.prems(1) by simp
  have upt: "[il_count st ..< il_count st + Suc n]
               = il_count st # [il_count st + 1 ..< il_count st + 1 + n]"
    by (simp add: upt_rec)
  show ?case
    unfolding run using ih by (simp only: cnt' con' upt) simp
qed

lemma infiniteLoop_run_not_due:
  assumes "\<not> il_effect_due st"
  shows "infiniteLoop_run n st = st"
  using assms by (cases n) simp_all

lemma infiniteLoop_run_add:
  "infiniteLoop_run (m + n) st = infiniteLoop_run n (infiniteLoop_run m st)"
proof (induction m arbitrary: st)
  case 0
  show ?case by simp
next
  case (Suc m)
  show ?case
  proof (cases "il_effect_due st")
    case True
    then show ?thesis using Suc.IH by simp
  next
    case False
    then show ?thesis by (simp add: infiniteLoop_run_not_due)
  qed
qed

lemma infiniteLoop_mount_run:
  assumes "n \<le> MAX_COUNT"
  shows "infiniteLoop_run n infiniteLoop_mount =
           \<lparr>il_count = n, il_effect_due = True, il_console = [0 ..< n]\<rparr>"
proof -
  have "il_effect_due infiniteLoop_mount" "il_count infiniteLoop_mount + n \<le> MAX_COUNT"
    using assms by (simp_all add: infiniteLoop_mount_def)
  from infiniteLoop_run_count [OF this]
  show ?thesis by (simp add: infiniteLoop_mount_def)
qed

text \<open>
  The cycle started by the first render does stop: the execution number \<open>2 ^ 53 + 1\<close> of
  the effect writes the count it read, and no further execution is due.
\<close>

lemma infiniteLoop_stops:
  "infiniteLoop_run (MAX_COUNT + 1 + k) infiniteLoop_mount =
     \<lparr>il_count = MAX_COUNT, il_effect_due = False, il_console = [0 ..< MAX_COUNT + 1]\<rparr>"
proof -
  let ?top = "infiniteLoop_run MAX_COUNT infiniteLoop_mount"
  have top: "?top = \<lparr>il_count = MAX_COUNT, il_effect_due = True, il_console = [0 ..< MAX_COUNT]\<rparr>"
    by (rule infiniteLoop_mount_run) simp
  have last: "infiniteLoop_effect ?top =
     \<lparr>il_count = MAX_COUNT, il_effect_due = False, il_console = [0 ..< MAX_COUNT + 1]\<rparr>"
    by (simp add: top infiniteLoop_effect_at_limit)
  have "infiniteLoop_run (MAX_COUNT + 1 + k) infiniteLoop_mount
          = infiniteLoop_run (1 + k) ?top"
    by (simp only: add.assoc infiniteLoop_run_add)
  also have "\<dots> = infiniteLoop_run k (infiniteLoop_effect ?top)"
    by (simp add: top)
  also have "\<dots> = infiniteLoop_effect ?top"
    by (rule infiniteLoop_run_not_due) (simp add: last)
  finally show ?thesis by (simp only: last)
qed

text \<open>
  Claim C3, as the spec has it: for every starting value of \<open>count\<close> an execution of the
  effect triggers the effect again, so the cycle never reaches a fixed point. It fails at
  \<open>count = 2 ^ 53 = 9007199254740992\<close>: there \<open>count + 1\<close> is \<open>count\<close> again, the
  dependency array is unchanged and no execution is due.
\<close>

theorem infiniteLoop_fixed_point_counterexample:
  "il_count (infiniteLoop_effect \<lparr>il_count = 9007199254740992, il_effect_due = True, il_console = []\<rparr>)
      = 9007199254740992
   \<and> \<not> il_effect_due
         (infiniteLoop_effect \<lparr>il_count = 9007199254740992, il_effect_due = True, il_console = []\<rparr>)"
  by (simp add: infiniteLoop_effect_def js_plus_one_def MAX_COUNT_def deps_changed_single Let_def)

text \<open>
  Claim C3, amended: for every value of \<open>count\<close> below \<open>2 ^ 53\<close>, an execution of the effect
  writes \<open>count + 1\<close>, a different value, into the state variable listed in its dependency
  array, so the effect is due again; started by the first render (count 0), the cycle goes
  through each of its first \<open>2 ^ 53\<close> executions without reaching a fixed point, logging
  the counts 0, 1, 2, ... in turn.
\<close>

theorem infiniteLoop_retriggers_below_limit:
  "(il_count st < MAX_COUNT \<longrightarrow>
      il_count (infiniteLoop_effect st) = il_count st + 1
      \<and> il_count (infiniteLoop_effect st) \<noteq> il_count st
      \<and> il_effect_due (infiniteLoop_effect st))
   \<and> (n \<le> MAX_COUNT \<longrightarrow>
      il_count (infiniteLoop_run n infiniteLoop_mount) = n
      \<and> il_effect_due (infiniteLoop_run n infiniteLoop_mount)
      \<and> il_console (infiniteLoop_run n infiniteLoop_mount) = [0 ..< n])"
  by (simp add: infiniteLoop_effect_below infiniteLoop_mount_run)

theorem infiniteLoop_retriggers_below_limit_witness:
  "il_count infiniteLoop_mount < MAX_COUNT
   \<and> il_count (infiniteLoop_effect infiniteLoop_mount) = 1
   \<and> il_effect_due (infiniteLoop_effect infiniteLoop_mount)
   \<and> (3::nat) \<le> MAX_COUNT
   \<and> il_count (infiniteLoop_run 3 infiniteLoop_mount) = 3
   \<and> il_effect_due (infiniteLoop_run 3 infiniteLoop_mount)
   \<and> il_console (infiniteLoop_run 3 infiniteLoop_mount) = [0, 1, 2]"
proof -
  have a: "il_count infiniteLoop_mount < MAX_COUNT"
    by (simp add: infiniteLoop_mount_def MAX_COUNT_def)
  have b: "(3::nat) \<le> MAX_COUNT"
    by (simp add: MAX_COUNT_def)
  have c: "il_count infiniteLoop_mount = 0"
    by (simp add: infiniteLoop_mount_def)
  have d: "[0 ..< (3::nat)] = [0, 1, 2]"
    by (simp add: upt_rec)
  show ?thesis
    using infiniteLoop_retriggers_below_limit [of infiniteLoop_mount 3] a b c d by simp
qed

section \<open>staleClosureComponent: the interval callback keeps the first count\<close>

lemma staleClosure_rerender_id: "staleClosure_rerender st = st"
  by (simp add: staleClosure_rerender_def deps_changed_empty)

lemma staleClosure_event_invariant:
  assumes "sc_interval st = None \<or> sc_interval st = Some 0"
    and "list_all (\<lambda>v. v = 0) (sc_console st)"
  shows "(sc_interval (staleClosure_event e st) = None \<or> sc_interval (staleClosure_event e st) = Some 0)
         \<and> list_all (\<lambda>v. v = 0) (sc_console (staleClosure_event e st))"
  using assms
  by (cases e)
     (auto simp: staleClosure_rerender_id staleClosure_cleanup_def split: option.splits)

lemma staleClosure_run_invariant:
  assumes "sc_interval st = None \<or> sc_interval st = Some 0"
    and "list_all (\<lambda>v. v = 0) (sc_console st)"
  shows "(sc_interval (staleClosure_run evs st) = None \<or> sc_interval (staleClosure_run evs st) = Some 0)
         \<and> list_all (\<lambda>v. v = 0) (sc_console (staleClosure_run evs st))"
  using assms
proof (induction evs arbitrary: st)
  case Nil
  then show ?case by simp
next
  case (Cons e evs)
  from staleClosure_event_invariant [OF Cons.prems, of e]
  have "sc_interval (staleClosure_event e st) = None \<or> sc_interval (staleClosure_event e st) = Some 0"
    and "list_all (\<lambda>v. v = 0) (sc_console (staleClosure_event e st))"
    by simp_all
  from Cons.IH [OF this] show ?case by simp
qed

lemma staleClosure_mount_eq:
  "staleClosure_mount = \<lparr>sc_count = 0, sc_mounted = True, sc_interval = Some 0, sc_console = []\<rparr>"
  by (simp add: staleClosure_mount_def staleClosure_effect_def)

lemma staleClosure_run_mounted:
  assumes "sc_mounted st" and "sc_interval st = Some 0" and "Unmount \<notin> set evs"
  shows "sc_console (staleClosure_run evs st)
           = sc_console st @ replicate (count_list evs Interval_Tick) 0
         \<and> (sc_count st + count_list evs Click_Increment \<le> MAX_COUNT \<longrightarrow>
              sc_count (staleClosure_run evs st) = sc_count st + count_list evs Click_Increment)"
  using assms
proof (induction evs arbitrary: st)
  case Nil
  show ?case by simp
next
  case (Cons e evs)
  show ?case
  proof (cases e)
    case Click_Increment
    let ?st' = "st\<lparr>sc_count := js_plus_one (sc_count st)\<rparr>"
    have step: "staleClosure_event e st = ?st'"
      using Click_Increment Cons.prems(1) by (simp add: staleClosure_rerender_id)
    have "sc_mounted ?st'" "sc_interval ?st' = Some 0" "Unmount \<notin> set evs"
      using Cons.prems by simp_all
    from Cons.IH [OF this] show ?thesis
      using Click_Increment step by (auto simp: js_plus_one_def)
  next
    case Interval_Tick
    let ?st' = "st\<lparr>sc_console := sc_console st @ [0]\<rparr>"
    have step: "staleClosure_event e st = ?st'"
      using Interval_Tick Cons.prems(2) by simp
    have "sc_mounted ?st'" "sc_interval ?st' = Some 0" "Unmount \<notin> set evs"
      using Cons.prems by simp_all
    from Cons.IH [OF this] show ?thesis
      using Interval_Tick step by (simp add: replicate_app_Cons_same)
  next
    case Unmount
    then show ?thesis using Cons.prems(3) by simp
  qed
qed

text \<open>
  Claim C10: in staleClosureComponent the interval callback registered by the mount-only
  effect captures the initial count, so for every sequence of Increment clicks and interval
  ticks every value the interval logs is 0, whatever the count state is by then: one 0 is
  logged for each tick, while the count follows the clicks.
\<close>

theorem staleClosure_logs_zero:
  "sc_console (staleClosure_run evs staleClosure_mount)
     = replicate (length (sc_console (staleClosure_run evs staleClosure_mount))) 0
   \<and> (Unmount \<notin> set evs \<longrightarrow>
        sc_console (staleClosure_run evs staleClosure_mount)
          = replicate (count_list evs Interval_Tick) 0
        \<and> (count_list evs Click_Increment \<le> MAX_COUNT \<longrightarrow>
             sc_count (staleClosure_run evs staleClosure_mount) = count_list evs Click_Increment))"
proof -
  have "list_all (\<lambda>v. v = 0) (sc_console (staleClosure_run evs staleClosure_mount))"
    using staleClosure_run_invariant [of staleClosure_mount evs]
    by (simp add: staleClosure_mount_eq)
  then have "\<forall>v\<in>set (sc_console (staleClosure_run evs staleClosure_mount)). v = 0"
    by (simp add: list_all_iff)
  then have first: "sc_console (staleClosure_run evs staleClosure_mount)
     = replicate (length (sc_console (staleClosure_run evs staleClosure_mount))) 0"
    by (simp add: replicate_length_same)
  have m: "sc_mounted staleClosure_mount" "sc_interval staleClosure_mount = Some 0"
    "sc_count staleClosure_mount = 0" "sc_console staleClosure_mount = []"
    by (simp_all add: staleClosure_mount_eq)
  have second: "Unmount \<notin> set evs \<longrightarrow>
        sc_console (staleClosure_run evs staleClosure_mount)
          = replicate (count_list evs Interval_Tick) 0
        \<and> (count_list evs Click_Increment \<le> MAX_COUNT \<longrightarrow>
             sc_count (staleClosure_run evs staleClosure_mount) = count_list evs Click_Increment)"
    using staleClosure_run_mounted [OF m(1) m(2), of evs] by (simp add: m)
  from first second show ?thesis by (rule conjI)
qed

theorem staleClosure_logs_zero_witness:
  "Unmount \<notin> set [Click_Increment, Interval_Tick, Click_Increment, Interval_Tick]
   \<and> count_list [Click_Increment, Interval_Tick, Click_Increment, Interval_Tick] Click_Increment
       \<le> MAX_COUNT
   \<and> sc_console (staleClosure_run [Click_Increment, Interval_Tick, Click_Increment, Interval_Tick]
        staleClosure_mount) = [0, 0]
   \<and> sc_count (staleClosure_run [Click_Increment, Interval_Tick, Click_Increment, Interval_Tick]
        staleClosure_mount) = 2"
proof -
  have b: "count_list [Click_Increment, Interval_Tick, Click_Increment, Interval_Tick] Click_Increment = 2"
    "count_list [Click_Increment, Interval_Tick, Click_Increment, Interval_Tick] Interval_Tick = 2"
    by simp_all
  have c: "(2::nat) \<le> MAX_COUNT" by (simp add: MAX_COUNT_def)
  have d: "replicate 2 (0::nat) = [0, 0]" by (simp add: numeral_2_eq_2)
  show ?thesis
    using staleClosure_logs_zero [of "[Click_Increment, Interval_Tick, Click_Increment, Interval_Tick]"]
    by (simp only: b c d) simp
qed

section \<open>RaceConditionComponent: no cancellation\<close>

lemma run_cleanup_none:
  assumes "rc_cleanup st = None"
  shows "run_cleanup st = st"
  using assms by (simp add: run_cleanup_def)

lemma RaceCondition_rerender_requests:
  assumes "rc_cleanup st = None"
  shows "rc_requests (RaceCondition_rerender to_text userId st) =
           rc_requests st @
             (if userId = rc_userId st then []
              else [\<lparr>req_url = ''/api/users/'' @ template_text to_text userId,
                     req_signal = None, req_status = Pending\<rparr>])"
    and "rc_cleanup (RaceCondition_rerender to_text userId st) = None"
  using assms
  by (auto simp: RaceCondition_rerender_def deps_changed_single run_cleanup_def
      RaceCondition_effect_def)

lemma list_all_update:
  assumes "list_all P xs" and "P x"
  shows "list_all P (xs[i := x])"
  using assms by (induction xs arbitrary: i) (auto split: nat.splits)

lemma settle_invariant:
  assumes "rc_cleanup st = None"
    and "list_all (\<lambda>r. req_signal r = None \<and> req_status r \<noteq> Aborted) (rc_requests st)"
  shows "rc_cleanup (settle i outcome st) = None
         \<and> list_all (\<lambda>r. req_signal r = None \<and> req_status r \<noteq> Aborted)
              (rc_requests (settle i outcome st))"
proof (cases "i < length (rc_requests st) \<and> req_status (rc_requests st ! i) = Pending")
  case False
  then show ?thesis using assms by (auto simp: settle_def)
next
  case True
  then have sig: "req_signal (rc_requests st ! i) = None"
    using assms(2) by (simp add: list_all_length)
  show ?thesis
  proof (cases outcome)
    case (Resolves data)
    then show ?thesis using True assms sig
      by (simp add: settle_def RaceCondition_then_def list_all_update)
  next
    case (Rejects error)
    then show ?thesis using True assms sig
      by (simp add: settle_def RaceCondition_catch_def list_all_update)
  qed
qed

lemma RaceCondition_event_invariant:
  assumes "rc_cleanup st = None"
    and "list_all (\<lambda>r. req_signal r = None \<and> req_status r \<noteq> Aborted) (rc_requests st)"
  shows "rc_cleanup (RaceCondition_event to_text e st) = None
         \<and> list_all (\<lambda>r. req_signal r = None \<and> req_status r \<noteq> Aborted)
              (rc_requests (RaceCondition_event to_text e st))"
proof (cases e)
  case (Change_userId userId)
  then show ?thesis
    using assms RaceCondition_rerender_requests [OF assms(1), of to_text userId] by simp
next
  case (Settle i outcome)
  then show ?thesis using settle_invariant [OF assms] by simp
qed

lemma RaceCondition_run_invariant:
  assumes "rc_cleanup st = None"
    and "list_all (\<lambda>r. req_signal r = None \<and> req_status r \<noteq> Aborted) (rc_requests st)"
  shows "rc_cleanup (RaceCondition_run to_text evs st) = None
         \<and> list_all (\<lambda>r. req_signal r = None \<and> req_status r \<noteq> Aborted)
              (rc_requests (RaceCondition_run to_text evs st))"
  using assms
proof (induction evs arbitrary: st)
  case Nil
  then show ?case by simp
next
  case (Cons e evs)
  from RaceCondition_event_invariant [OF Cons.prems, of to_text e]
  have "rc_cleanup (RaceCondition_event to_text e st) = None"
    and "list_all (\<lambda>r. req_signal r = None \<and> req_status r \<noteq> Aborted)
           (rc_requests (RaceCondition_event to_text e st))"
    by simp_all
  from Cons.IH [OF this] show ?case by simp
qed

lemma RaceCondition_mount_invariant:
  "rc_cleanup (RaceCondition_mount to_text u) = None"
  "list_all (\<lambda>r. req_signal r = None \<and> req_status r \<noteq> Aborted)
     (rc_requests (RaceCondition_mount to_text u))"
  by (simp_all add: RaceCondition_mount_def RaceCondition_effect_def)

text \<open>
  Claim C6: the effect of RaceConditionComponent, keyed by \<open>userId\<close>, cancels nothing. It
  returns no cleanup and passes no abort signal to \<open>fetch\<close>: whatever happens, no cleanup
  is registered, no request carries a signal and none is ever aborted; a render with a
  changed \<open>userId\<close> leaves every earlier request exactly as it was (a pending one stays
  pending) and starts one more.
\<close>

theorem RaceCondition_never_aborts:
  "rc_cleanup (RaceCondition_run to_text evs (RaceCondition_mount to_text u)) = None
   \<and> list_all (\<lambda>r. req_signal r = None \<and> req_status r \<noteq> Aborted)
        (rc_requests (RaceCondition_run to_text evs (RaceCondition_mount to_text u)))
   \<and> rc_requests (RaceCondition_rerender to_text userId
          (RaceCondition_run to_text evs (RaceCondition_mount to_text u))) =
        rc_requests (RaceCondition_run to_text evs (RaceCondition_mount to_text u)) @
          (if userId = rc_userId (RaceCondition_run to_text evs (RaceCondition_mount to_text u))
           then []
           else [\<lparr>req_url = ''/api/users/'' @ template_text to_text userId,
                  req_signal = None, req_status = Pending\<rparr>])"
proof -
  note inv = RaceCondition_run_invariant
      [where st = "RaceCondition_mount to_text u" and to_text = to_text and evs = evs,
        OF RaceCondition_mount_invariant]
  from inv have c: "rc_cleanup (RaceCondition_run to_text evs (RaceCondition_mount to_text u)) = None"
    by simp
  show ?thesis
    using inv RaceCondition_rerender_requests(1) [OF c, of to_text userId] by simp
qed

text \<open>The \<open>userId\<close> going from 1 to 2: the first request is left pending. From 1 to "1",
  a different value with the same text, the effect runs again as well.\<close>

lemma RaceCondition_leaves_previous_pending:
  "map req_status
     (rc_requests (RaceCondition_rerender to_text (Num 2) (RaceCondition_mount to_text (Num 1))))
   = [Pending, Pending]"
  "map req_status
     (rc_requests (RaceCondition_rerender to_text (Str ''1'') (RaceCondition_mount to_text (Num 1))))
   = [Pending, Pending]"
  by (simp_all add: RaceCondition_rerender_def RaceCondition_mount_def RaceCondition_effect_def
      deps_changed_single run_cleanup_def)

text \<open>By contrast, the corrected component's cleanup aborts the request of the previous
  execution of the effect.\<close>

lemma CorrectedRaceCondition_aborts_previous:
  "map req_status
     (rc_requests
        (CorrectedRaceCondition_rerender to_text 1 (Num 2)
           (CorrectedRaceCondition_effect to_text 0 (Num 1)
              \<lparr>rc_userId = Num 1, rc_user = Null, rc_loading = True, rc_requests = [],
               rc_cleanup = None, rc_console = []\<rparr>)))
   = [Aborted, Pending]"
  by (simp add: CorrectedRaceCondition_rerender_def CorrectedRaceCondition_effect_def
      deps_changed_single run_cleanup_def abort_signal_def)

section \<open>The handlers of a rejected fetch\<close>

text \<open>The \<open>.catch\<close> of RaceConditionComponent, whose request is never aborted, has one path
  for every error.\<close>

lemma RaceCondition_catch_one_path:
  "rc_console (RaceCondition_catch e st) = rc_console st @ [Console_error ''Fetch error:'' e]"
  "rc_loading (RaceCondition_catch e st) = False"
  by (simp_all add: RaceCondition_catch_def)

lemma CorrectedRaceCondition_catch_abort:
  assumes "err_name a = ''AbortError''"
  shows "CorrectedRaceCondition_catch userId a st =
           st\<lparr>rc_console := rc_console st @ [Console_log ''Fetch aborted for user:'' [userId]],
              rc_loading := False\<rparr>"
  using assms by (simp add: CorrectedRaceCondition_catch_def)

lemma CorrectedRaceCondition_catch_failure:
  assumes "err_name f \<noteq> ''AbortError''"
  shows "CorrectedRaceCondition_catch userId f st =
           st\<lparr>rc_console := rc_console st @ [Console_error ''Fetch error:'' f],
              rc_loading := False\<rparr>"
  using assms by (simp add: CorrectedRaceCondition_catch_def)

text \<open>
  Claim C4: in the network-fetch example that cancels its request
  (CorrectedRaceConditionComponent in the write-up), the handler that catches a rejected
  fetch tells a deliberate cancellation from a genuine failure and takes a different
  branch for each: for an error named \<open>AbortError\<close> it writes "Fetch aborted for user:"
  and the user id with \<open>console.log\<close>, for any other error it writes "Fetch error:" and
  the error with \<open>console.error\<close>; the two console lines differ in method and text. Either
  way loading is switched off.
\<close>

theorem CorrectedRaceCondition_catch_distinguishes:
  "err_name a = ''AbortError'' \<and> err_name f \<noteq> ''AbortError'' \<longrightarrow>
     rc_console (CorrectedRaceCondition_catch userId a st)
       = rc_console st @ [Console_log ''Fetch aborted for user:'' [userId]]
     \<and> rc_console (CorrectedRaceCondition_catch userId f st)
       = rc_console st @ [Console_error ''Fetch error:'' f]
     \<and> map entry_kind (rc_console (CorrectedRaceCondition_catch userId a st))
       = map entry_kind (rc_console st) @ [(Method_log, ''Fetch aborted for user:'')]
     \<and> map entry_kind (rc_console (CorrectedRaceCondition_catch userId f st))
       = map entry_kind (rc_console st) @ [(Method_error, ''Fetch error:'')]
     \<and> map entry_kind (rc_console (CorrectedRaceCondition_catch userId a st))
       \<noteq> map entry_kind (rc_console (CorrectedRaceCondition_catch userId f st))
     \<and> rc_loading (CorrectedRaceCondition_catch userId a st) = False
     \<and> rc_loading (CorrectedRaceCondition_catch userId f st) = False"
  by (simp add: CorrectedRaceCondition_catch_abort CorrectedRaceCondition_catch_failure)

theorem CorrectedRaceCondition_catch_distinguishes_witness:
  "err_name \<lparr>err_name = ''AbortError'', err_message = ''The user aborted a request.''\<rparr> = ''AbortError''
   \<and> err_name \<lparr>err_name = ''TypeError'', err_message = ''Failed to fetch''\<rparr> \<noteq> ''AbortError''
   \<and> rc_console (CorrectedRaceCondition_catch (Num 1)
        \<lparr>err_name = ''AbortError'', err_message = ''The user aborted a request.''\<rparr>
        \<lparr>rc_userId = Num 2, rc_user = Null, rc_loading = True, rc_requests = [],
         rc_cleanup = None, rc_console = []\<rparr>)
      = [Console_log ''Fetch aborted for user:'' [Num 1]]
   \<and> rc_console (CorrectedRaceCondition_catch (Num 1)
        \<lparr>err_name = ''TypeError'', err_message = ''Failed to fetch''\<rparr>
        \<lparr>rc_userId = Num 2, rc_user = Null, rc_loading = True, rc_requests = [],
         rc_cleanup = None, rc_console = []\<rparr>)
      = [Console_error ''Fetch error:'' \<lparr>err_name = ''TypeError'', err_message = ''Failed to fetch''\<rparr>]
   \<and> rc_loading (CorrectedRaceCondition_catch (Num 1)
        \<lparr>err_name = ''AbortError'', err_message = ''The user aborted a request.''\<rparr>
        \<lparr>rc_userId = Num 2, rc_user = Null, rc_loading = True, rc_requests = [],
         rc_cleanup = None, rc_console = []\<rparr>) = False"
proof -
  have names:
    "err_name \<lparr>err_name = ''AbortError'', err_message = ''The user aborted a request.''\<rparr> = ''AbortError''"
    "err_name \<lparr>err_name = ''TypeError'', err_message = ''Failed to fetch''\<rparr> \<noteq> ''AbortError''"
    by simp_all
  show ?thesis
    using names
      CorrectedRaceCondition_catch_distinguishes
        [of "\<lparr>err_name = ''AbortError'', err_message = ''The user aborted a request.''\<rparr>"
            "\<lparr>err_name = ''TypeError'', err_message = ''Failed to fetch''\<rparr>"
            "Num 1"
            "\<lparr>rc_userId = Num 2, rc_user = Null, rc_loading = True, rc_requests = [],
              rc_cleanup = None, rc_console = []\<rparr>"]
    by simp
qed

section \<open>Controlled and uncontrolled forms show the same alerts\<close>

lemma forms_run_agree:
  assumes "uc_ref_attached u" and "uc_input_value u = cc_value c" and "uc_alerts u = cc_alerts c"
  shows "\<exists>u'. UncontrolledComponent_run evs u = Inr u'
              \<and> uc_ref_attached u'
              \<and> uc_input_value u' = cc_value (ControlledComponent_run evs c)
              \<and> uc_alerts u' = cc_alerts (ControlledComponent_run evs c)"
  using assms
proof (induction evs arbitrary: u c)
  case Nil
  then show ?case by simp
next
  case (Cons e evs)
  show ?case
  proof (cases e)
    case (Type_text t)
    let ?u = "u\<lparr>uc_input_value := t\<rparr>" and ?c = "cc_handleChange t c"
    have "uc_ref_attached ?u" "uc_input_value ?u = cc_value ?c" "uc_alerts ?u = cc_alerts ?c"
      using Cons.prems by (simp_all add: cc_handleChange_def)
    from Cons.IH [OF this] show ?thesis using Type_text by simp
  next
    case Submit
    let ?u = "u\<lparr>uc_alerts := uc_alerts u @ [''A name was submitted'' @ uc_input_value u]\<rparr>"
    let ?c = "cc_handleSubmit c"
    have step: "UncontrolledComponent_event Submit u = Inr ?u"
      using Cons.prems(1) by (simp add: uc_handleSubmit_def)
    have "uc_ref_attached ?u" "uc_input_value ?u = cc_value ?c" "uc_alerts ?u = cc_alerts ?c"
      using Cons.prems by (simp_all add: cc_handleSubmit_def)
    from Cons.IH [OF this] show ?thesis using Submit step by simp
  qed
qed

lemma ControlledComponent_run_append:
  "ControlledComponent_run (xs @ ys) c = ControlledComponent_run ys (ControlledComponent_run xs c)"
  by (induction xs arbitrary: c) simp_all

lemma ControlledComponent_typing:
  "ControlledComponent_run (map Type_text ts) c =
     c\<lparr>cc_value := last (cc_value c # ts)\<rparr>"
  by (induction ts arbitrary: c) (simp_all add: cc_handleChange_def)

lemma ControlledComponent_type_submit:
  "cc_alerts (ControlledComponent_run (map Type_text ts @ [Submit]) ControlledComponent_init)
     = [''A name was submitted'' @ last ([] # ts)]"
  by (simp add: ControlledComponent_run_append ControlledComponent_typing cc_handleSubmit_def
      ControlledComponent_init_def)

text \<open>
  Claim C1: whatever the user types and submits, the controlled form (the text kept in
  React state) and the uncontrolled form (the text read through the ref on submission)
  show the same alerts; after typing and one submission the alert is
  "A name was submitted" followed by the text left in the field. The uncontrolled form
  never fails on the way: its ref is attached once it is mounted.
\<close>

theorem controlled_uncontrolled_same_alerts:
  "(\<exists>u. UncontrolledComponent_run evs UncontrolledComponent_mount = Inr u
         \<and> uc_alerts u = cc_alerts (ControlledComponent_run evs ControlledComponent_init))
   \<and> cc_alerts (ControlledComponent_run (map Type_text ts @ [Submit]) ControlledComponent_init)
        = [''A name was submitted'' @ last ([] # ts)]
   \<and> (\<exists>u. UncontrolledComponent_run (map Type_text ts @ [Submit]) UncontrolledComponent_mount = Inr u
         \<and> uc_alerts u = [''A name was submitted'' @ last ([] # ts)])"
proof -
  have start: "uc_ref_attached UncontrolledComponent_mount"
    "uc_input_value UncontrolledComponent_mount = cc_value ControlledComponent_init"
    "uc_alerts UncontrolledComponent_mount = cc_alerts ControlledComponent_init"
    by (simp_all add: UncontrolledComponent_mount_def UncontrolledComponent_init_def
        ControlledComponent_init_def)
  have agree: "\<exists>u. UncontrolledComponent_run es UncontrolledComponent_mount = Inr u
         \<and> uc_alerts u = cc_alerts (ControlledComponent_run es ControlledComponent_init)" for es
    using forms_run_agree [OF start, of es] by blast
  from agree [of evs] agree [of "map Type_text ts @ [Submit]"] show ?thesis
    by (simp add: ControlledComponent_type_submit)
qed

section \<open>The memoized child\<close>

lemma shallow_equal_single:
  "shallow_equal [(k, v)] [(k, w)] \<longleftrightarrow> v = w"
  by (simp add: shallow_equal_def strict_eq_iff)

lemma memo_MemoizedChild_Some:
  "memo_MemoizedChild (Some prev) ps console =
     (if shallow_equal prev ps then console else console @ [''MemoizedChild is rendered!''])"
  by (simp add: memo_MemoizedChild_def MemoizedChild_def)

text \<open>
  Claim C2: in a re-render of Parent, the body of the memoized child is not invoked again
  (its log line is absent) when the child's props are shallow-equal to the previous ones,
  which for \<open>{ name }\<close> means the same name; when a prop differs, the body is invoked
  again.
\<close>

theorem memo_skips_iff_shallow_equal:
  "memo_MemoizedChild (Some prev) ps console =
     (if shallow_equal prev ps then console else console @ [''MemoizedChild is rendered!''])
   \<and> (shallow_equal (Parent_child_props s) (Parent_child_props (ma_parent app))
        \<longleftrightarrow> p_name s = p_name (ma_parent app))
   \<and> (ma_prev_props app = Some (Parent_child_props s) \<longrightarrow>
        ma_console (Parent_render app) =
          ma_console app @ [''Parent Rendered!''] @
            (if p_name s = p_name (ma_parent app) then [] else [''MemoizedChild is rendered!'']))"
  by (simp add: memo_MemoizedChild_Some Parent_child_props_def shallow_equal_single
      Parent_render_def Let_def)

lemma Parent_mount_eq:
  "Parent_mount = \<lparr>ma_parent = \<lparr>p_count = 0, p_name = ''Sumit''\<rparr>,
                   ma_prev_props = Some [(''name'', Str ''Sumit'')],
                   ma_console = [''Parent Rendered!'', ''MemoizedChild is rendered!'']\<rparr>"
  by (simp add: Parent_mount_def Parent_render_def memo_MemoizedChild_def MemoizedChild_def
      Parent_child_props_def Let_def)

theorem memo_skips_iff_shallow_equal_witness:
  "ma_prev_props (Parent_mount\<lparr>ma_parent := \<lparr>p_count = 1, p_name = ''Sumit''\<rparr>\<rparr>)
     = Some (Parent_child_props \<lparr>p_count = 0, p_name = ''Sumit''\<rparr>)
   \<and> ma_console (Parent_render (Parent_mount\<lparr>ma_parent := \<lparr>p_count = 1, p_name = ''Sumit''\<rparr>\<rparr>))
     = [''Parent Rendered!'', ''MemoizedChild is rendered!'', ''Parent Rendered!'']
   \<and> ma_prev_props (Parent_mount\<lparr>ma_parent := \<lparr>p_count = 0, p_name = ''Satyam''\<rparr>\<rparr>)
     = Some (Parent_child_props \<lparr>p_count = 0, p_name = ''Sumit''\<rparr>)
   \<and> ma_console (Parent_render (Parent_mount\<lparr>ma_parent := \<lparr>p_count = 0, p_name = ''Satyam''\<rparr>\<rparr>))
     = [''Parent Rendered!'', ''MemoizedChild is rendered!'', ''Parent Rendered!'',
        ''MemoizedChild is rendered!'']"
proof -
  have p: "Parent_child_props \<lparr>p_count = 0, p_name = ''Sumit''\<rparr> = [(''name'', Str ''Sumit'')]"
    by (simp add: Parent_child_props_def)
  show ?thesis
    using
      memo_skips_iff_shallow_equal [of "[]" "[]" "[]" "\<lparr>p_count = 0, p_name = ''Sumit''\<rparr>"
        "Parent_mount\<lparr>ma_parent := \<lparr>p_count = 1, p_name = ''Sumit''\<rparr>\<rparr>"]
      memo_skips_iff_shallow_equal [of "[]" "[]" "[]" "\<lparr>p_count = 0, p_name = ''Sumit''\<rparr>"
        "Parent_mount\<lparr>ma_parent := \<lparr>p_count = 0, p_name = ''Satyam''\<rparr>\<rparr>"]
    by (simp add: p Parent_mount_eq)
qed

text \<open>A render of Parent after a click: a click on the count button never brings the
  child's log line, a click on the name button does when the name was not "Satyam" yet.\<close>

lemma Parent_render_after_click:
  assumes "ma_prev_props app = Some (Parent_child_props (ma_parent app))"
  shows "ma_console (Parent_render (app\<lparr>ma_parent := Parent_handler e (ma_parent app)\<rparr>)) =
           ma_console app @ [''Parent Rendered!''] @
             (if e = Click_name \<and> p_name (ma_parent app) \<noteq> ''Satyam''
              then [''MemoizedChild is rendered!''] else [])"
  using assms
  by (cases e)
     (auto simp: Parent_render_def Parent_child_props_def memo_MemoizedChild_Some
       shallow_equal_single Let_def)

section \<open>The shallow comparison\<close>

lemma shallow_equal_keys:
  assumes "shallow_equal p q"
  shows "set (map fst p) \<subseteq> set (map fst q)"
proof
  fix k assume "k \<in> set (map fst p)"
  then obtain v where "(k, v) \<in> set p" by auto
  with assms have "map_of q k \<noteq> None"
    by (auto simp: shallow_equal_def list_all_iff split: option.splits)
  then show "k \<in> set (map fst q)"
    by (simp add: map_of_eq_None_iff)
qed

lemma shallow_equal_fields:
  assumes "distinct (map fst p)" and "distinct (map fst q)"
  shows "shallow_equal p q \<longleftrightarrow>
           set (map fst p) = set (map fst q)
           \<and> list_all (\<lambda>k. map_of p k = map_of q k) (map fst p)"
proof
  assume se: "shallow_equal p q"
  have sub: "set (map fst p) \<subseteq> set (map fst q)" by (rule shallow_equal_keys [OF se])
  have cp: "card (set (map fst p)) = length p"
    using distinct_card [OF assms(1)] by (simp only: length_map)
  have cq: "card (set (map fst q)) = length q"
    using distinct_card [OF assms(2)] by (simp only: length_map)
  have "length p = length q"
    using se by (simp add: shallow_equal_def)
  with cp cq have "card (set (map fst p)) = card (set (map fst q))"
    by (simp only:)
  with sub have keys: "set (map fst p) = set (map fst q)"
    by (simp add: card_subset_eq)
  have "map_of p k = map_of q k" if "k \<in> set (map fst p)" for k
  proof -
    from that obtain v where kv: "(k, v) \<in> set p" by auto
    then have pv: "map_of p k = Some v" using assms(1) by simp
    from se kv obtain w where "map_of q k = Some w" "strict_eq v w"
      by (auto simp: shallow_equal_def list_all_iff split: option.splits)
    then show ?thesis using pv by (simp add: strict_eq_iff)
  qed
  then show "set (map fst p) = set (map fst q)
           \<and> list_all (\<lambda>k. map_of p k = map_of q k) (map fst p)"
    using keys by (simp add: list_all_iff)
next
  assume r: "set (map fst p) = set (map fst q)
           \<and> list_all (\<lambda>k. map_of p k = map_of q k) (map fst p)"
  have cp: "card (set (map fst p)) = length p"
    using distinct_card [OF assms(1)] by (simp only: length_map)
  have cq: "card (set (map fst q)) = length q"
    using distinct_card [OF assms(2)] by (simp only: length_map)
  from r have "card (set (map fst p)) = card (set (map fst q))"
    by (simp only:)
  with cp cq have len: "length p = length q"
    by (simp only:)
  have "case map_of q k of None \<Rightarrow> False | Some w \<Rightarrow> strict_eq v w" if "(k, v) \<in> set p" for k v
  proof -
    from that have "map_of p k = Some v" using assms(1) by simp
    moreover from that r have "map_of p k = map_of q k"
      by (force simp: list_all_iff)
    ultimately show ?thesis by (simp add: strict_eq_iff)
  qed
  then show "shallow_equal p q"
    using len by (auto simp: shallow_equal_def list_all_iff)
qed

text \<open>
  Claim C7: the shallow comparison is made field by field and never looks inside a nested
  structure. Two primitive fields compare equal iff their values are equal; two object or
  array fields (and two function fields) compare equal iff they are the same reference, so
  two distinct references whose objects have identical contents count as changed. For
  props objects in general, with each field named once: they are shallow-equal iff they
  have the same field names and each field has the same value or reference in both.
\<close>

theorem shallow_comparison_by_value_or_reference:
  "(is_primitive v \<and> is_primitive w \<longrightarrow> (shallow_equal [(k, v)] [(k, w)] \<longleftrightarrow> v = w))
   \<and> (shallow_equal [(k, Ref a)] [(k, Ref b)] \<longleftrightarrow> a = b)
   \<and> (shallow_equal [(k, Fn a)] [(k, Fn b)] \<longleftrightarrow> a = b)
   \<and> ((h :: heap) a = h b \<and> a \<noteq> b \<longrightarrow> \<not> shallow_equal [(k, Ref a)] [(k, Ref b)])
   \<and> (distinct (map fst p) \<and> distinct (map fst q) \<longrightarrow>
        (shallow_equal p q \<longleftrightarrow>
           set (map fst p) = set (map fst q)
           \<and> list_all (\<lambda>k. map_of p k = map_of q k) (map fst p)))"
  using shallow_equal_fields [of p q] by (simp add: shallow_equal_single)


theorem shallow_comparison_by_value_or_reference_witness:
  "is_primitive (Str ''Sumit'') \<and> is_primitive (Str ''Satyam'')
   \<and> \<not> shallow_equal [(''name'', Str ''Sumit'')] [(''name'', Str ''Satyam'')]
   \<and> [1 \<mapsto> [(''color'', Str ''red'')], 2 \<mapsto> [(''color'', Str ''red'')]] (1::nat)
       = [1 \<mapsto> [(''color'', Str ''red'')], 2 \<mapsto> [(''color'', Str ''red'')]] 2
   \<and> (1::nat) \<noteq> 2
   \<and> \<not> shallow_equal [(''style'', Ref 1)] [(''style'', Ref 2)]
   \<and> distinct (map fst [(''name'', Str ''Sumit''), (''style'', Ref 1)])
   \<and> distinct (map fst [(''style'', Ref 1), (''name'', Str ''Sumit'')])
   \<and> shallow_equal [(''name'', Str ''Sumit''), (''style'', Ref 1)]
        [(''style'', Ref 1), (''name'', Str ''Sumit'')]"
proof -
  have prim: "is_primitive (Str ''Sumit'')" "is_primitive (Str ''Satyam'')"
    by simp_all
  have heap: "[1 \<mapsto> [(''color'', Str ''red'')], 2 \<mapsto> [(''color'', Str ''red'')]] (1::nat)
       = [1 \<mapsto> [(''color'', Str ''red'')], 2 \<mapsto> [(''color'', Str ''red'')]] 2"
    by simp
  have dist: "distinct (map fst [(''name'', Str ''Sumit''), (''style'', Ref 1)])"
    "distinct (map fst [(''style'', Ref 1), (''name'', Str ''Sumit'')])"
    by simp_all
  have keys: "set (map fst [(''name'', Str ''Sumit''), (''style'', Ref 1)])
      = set (map fst [(''style'', Ref 1), (''name'', Str ''Sumit'')])"
    by auto
  have fields: "list_all (\<lambda>k. map_of [(''name'', Str ''Sumit''), (''style'', Ref 1)] k
                           = map_of [(''style'', Ref 1), (''name'', Str ''Sumit'')] k)
                  (map fst [(''name'', Str ''Sumit''), (''style'', Ref 1)])"
    by simp
  note thm1 = shallow_comparison_by_value_or_reference
      [of "Str ''Sumit''" "Str ''Satyam''" "''name''" 1 2
        "[1 \<mapsto> [(''color'', Str ''red'')], 2 \<mapsto> [(''color'', Str ''red'')]]"
        "[(''name'', Str ''Sumit''), (''style'', Ref 1)]"
        "[(''style'', Ref 1), (''name'', Str ''Sumit'')]"]
  note thm2 = shallow_comparison_by_value_or_reference
      [of "Str ''Sumit''" "Str ''Satyam''" "''style''" 1 2
        "[1 \<mapsto> [(''color'', Str ''red'')], 2 \<mapsto> [(''color'', Str ''red'')]]"
        "[(''name'', Str ''Sumit''), (''style'', Ref 1)]"
        "[(''style'', Ref 1), (''name'', Str ''Sumit'')]"]
  have a: "\<not> shallow_equal [(''name'', Str ''Sumit'')] [(''name'', Str ''Satyam'')]"
    using thm1 prim by simp
  have b: "\<not> shallow_equal [(''style'', Ref 1)] [(''style'', Ref 2)]"
    using thm2 heap by simp
  have c: "shallow_equal [(''name'', Str ''Sumit''), (''style'', Ref 1)]
        [(''style'', Ref 1), (''name'', Str ''Sumit'')]"
    using thm1 dist keys fields by blast
  from prim a heap b dist c show ?thesis by simp
qed

end
